theory Spec2Isabelle
  imports Main "HOL-Library.List_Lexorder" "HOL-Library.Char_ord"
begin

section \<open>filterdir: a filtering overlay over an http.FileSystem\<close>

text \<open>
  A shallow embedding of \<^verbatim>\<open>filterdir.go\<close>. Go strings are byte strings and are
  modelled as \<open>string\<close> (a list of \<open>char\<close>); their order \<open><\<close> is the bytewise
  lexicographic one, which is the order of lists over the order of characters.
  Pointer receivers become explicit state passing: a method takes the receiver and returns
  the updated receiver beside its results. A run-time panic is a value of type \<open>panic\<close>.
\<close>

subsection \<open>Options and their defaults\<close>

text \<open>The struct \<^verbatim>\<open>Options\<close>, field by field.\<close>

record Options =
  Filename :: string
  PackageName :: string
  VfsgenBuildTags :: string
  VariableName :: string
  VariableComment :: string
  ListFileName :: string
  ListFileBuildTags :: string

text \<open>
  \<^verbatim>\<open>vfsgen.Options\<close>, the configuration record of the external code generator, with the
  five fields that \<^verbatim>\<open>FilterDir.Options\<close> fills.
\<close>

record vfsgen_Options =
  vfsgen_Filename :: string
  vfsgen_PackageName :: string
  vfsgen_BuildTags :: string
  vfsgen_VariableName :: string
  vfsgen_VariableComment :: string

text \<open>
  \<^verbatim>\<open>fillMissing\<close> is a sequence of five guarded assignments; each \<open>let\<close> is one of
  them, in the order of the source.
\<close>

definition fillMissing :: "Options \<Rightarrow> Options" where
  "fillMissing opt =
     (let opt = (if PackageName opt = [] then opt\<lparr>PackageName := ''main''\<rparr> else opt);
          opt = (if VariableName opt = [] then opt\<lparr>VariableName := ''assets''\<rparr> else opt);
          opt = (if ListFileName opt = [] then opt\<lparr>ListFileName := ''assets_list.go''\<rparr> else opt);
          opt = (if VfsgenBuildTags opt = [] then opt\<lparr>VfsgenBuildTags := ''!dev''\<rparr> else opt);
          opt = (if ListFileBuildTags opt = [] then opt\<lparr>ListFileBuildTags := ''dev''\<rparr> else opt)
      in opt)"

subsection \<open>The overlay\<close>

text \<open>
  Errors. \<^verbatim>\<open>os.ErrNotExist\<close> is the one error value the package creates itself; every
  other error comes from the resource store, which may also report \<open>ErrNotExist\<close>.
\<close>

datatype error = ErrNotExist | ErrPermission | ErrOther string

datatype panic = SliceBoundsOutOfRange

text \<open>
  The struct \<^verbatim>\<open>FilterDir\<close>. The store behind \<^verbatim>\<open>http.Dir\<close> is an external collaborator:
  the field \<open>dir\<close> is its \<^verbatim>\<open>Open\<close> method, a function from a name to an error or a
  handle \<open>'h\<close> of the opened store file. A \<^verbatim>\<open>sync.Once\<close> is the flag that says whether
  its function has run. The channel \<open>requests\<close> is the queue of the values sent and not
  yet received. The map \<^verbatim>\<open>include\<close> (a reserved word here, hence \<open>include_map\<close>) is
  a partial function to \<open>unit\<close>; the nil map of a fresh \<^verbatim>\<open>FilterDir\<close> has no key.
\<close>

record 'h FilterDir =
  loadOnce :: bool
  startOnce :: bool
  dir :: "string \<Rightarrow> error + 'h"
  options :: Options
  requests :: "string list"
  include_map :: "string \<rightharpoonup> unit"
  FilterMode :: bool
  IncludeList :: "string list"

text \<open>
  The struct \<^verbatim>\<open>File\<close>: the embedded \<^verbatim>\<open>http.File\<close> (the handle of the store file),
  the name it was opened under and the include map it filters with.
\<close>

record 'h File =
  File :: 'h
  name :: string
  file_include :: "string \<rightharpoonup> unit"

text \<open>
  What \<^verbatim>\<open>Open\<close> returns as an \<^verbatim>\<open>http.File\<close>: the store's own file in discovery mode,
  a filtering \<^verbatim>\<open>*File\<close> in filter mode.
\<close>

datatype 'h http_File = StoreFile 'h | FilterFile "'h File"

record FileInfo =
  Name :: string
  IsDir :: bool

definition New :: "(string \<Rightarrow> error + 'h) \<Rightarrow> Options \<Rightarrow> 'h FilterDir" where
  "New d opt =
     \<lparr>loadOnce = False, startOnce = False, dir = d, options = fillMissing opt,
      requests = [], include_map = Map.empty, FilterMode = False, IncludeList = []\<rparr>"

text \<open>The method \<^verbatim>\<open>FilterDir.Options\<close>, which hands the options to the generator.\<close>

definition FilterDir_Options :: "'h FilterDir \<Rightarrow> vfsgen_Options" where
  "FilterDir_Options f =
     \<lparr>vfsgen_Filename = Filename (options f),
      vfsgen_PackageName = PackageName (options f),
      vfsgen_BuildTags = VfsgenBuildTags (options f),
      vfsgen_VariableName = VariableName (options f),
      vfsgen_VariableComment = VariableComment (options f)\<rparr>"

text \<open>
  \<^verbatim>\<open>strings.Split(s, "/")\<close> and \<^verbatim>\<open>strings.Join(a, sep)\<close> of the Go library. The source
  only splits at the one-byte separator \<^verbatim>\<open>"/"\<close>, so \<open>Split\<close> takes the separator as a
  character: \<open>n\<close> separators give \<open>n + 1\<close> pieces, and the empty string gives one
  empty piece. The result is never empty, so the first branch of the \<open>case\<close> is there
  for totality only.
\<close>

fun Split :: "string \<Rightarrow> char \<Rightarrow> string list" where
  "Split [] sep = [[]]"
| "Split (c # cs) sep =
     (if c = sep then [] # Split cs sep
      else (case Split cs sep of [] \<Rightarrow> [[c]] | w # ws \<Rightarrow> (c # w) # ws))"

fun Join :: "string list \<Rightarrow> string \<Rightarrow> string" where
  "Join [] sep = []"
| "Join [x] sep = x"
| "Join (x # y # ys) sep = x @ sep @ Join (y # ys) sep"

text \<open>
  \<^verbatim>\<open>loadIncludeList\<close>. The inner loop runs \<open>i\<close> from 2 while \<open>i < len(dirs)\<close> and
  stores \<^verbatim>\<open>strings.Join(dirs[:i], "/")\<close>; the outer loop ranges over the include list.
\<close>

function loadIncludeList_dirs :: "string list \<Rightarrow> nat \<Rightarrow> (string \<rightharpoonup> unit) \<Rightarrow> (string \<rightharpoonup> unit)" where
  "loadIncludeList_dirs dirs i m =
     (if i < length dirs
      then loadIncludeList_dirs dirs (Suc i) (m(Join (take i dirs) ''/'' \<mapsto> ()))
      else m)"
  by pat_completeness auto
termination
  by (relation "measure (\<lambda>(dirs, i, m). length dirs - i)") auto

fun loadIncludeList_files :: "string list \<Rightarrow> (string \<rightharpoonup> unit) \<Rightarrow> (string \<rightharpoonup> unit)" where
  "loadIncludeList_files [] m = m"
| "loadIncludeList_files (file # files) m =
     loadIncludeList_files files
       (loadIncludeList_dirs (Split file CHR ''/'') 2 (m(file \<mapsto> ())))"

definition loadIncludeList :: "'h FilterDir \<Rightarrow> 'h FilterDir" where
  "loadIncludeList f =
     f\<lparr>include_map := loadIncludeList_files (IncludeList f) (Map.empty(''/'' \<mapsto> ()))\<rparr>"

text \<open>\<^verbatim>\<open>f.loadOnce.Do(f.loadIncludeList)\<close>: the list is loaded by the first call only.\<close>

definition loadOnce_Do :: "'h FilterDir \<Rightarrow> 'h FilterDir" where
  "loadOnce_Do f = (if loadOnce f then f else (loadIncludeList f)\<lparr>loadOnce := True\<rparr>)"

text \<open>
  \<^verbatim>\<open>f.startOnce.Do(...)\<close> starts the console goroutine, which is outside this model; what
  remains of it is the flag.
\<close>

definition startOnce_Do :: "'h FilterDir \<Rightarrow> 'h FilterDir" where
  "startOnce_Do f = (if startOnce f then f else f\<lparr>startOnce := True\<rparr>)"

text \<open>
  \<^verbatim>\<open>Open\<close>. The store is opened first and its error returned as it is. In discovery mode
  the name is sent on \<open>requests\<close> (the send is modelled as the enqueue; the goroutine
  started by \<open>startOnce\<close> is the receiver) and the store's file returned. In filter mode
  the include map is loaded once and decides between a filtering \<open>File\<close> and
  \<^verbatim>\<open>os.ErrNotExist\<close>.
\<close>

definition Open :: "'h FilterDir \<Rightarrow> string \<Rightarrow> (error + 'h http_File) \<times> 'h FilterDir" where
  "Open f p =
     (case dir f p of
        Inl err \<Rightarrow> (Inl err, f)
      | Inr file \<Rightarrow>
          if FilterMode f = False then
            (let f = startOnce_Do f;
                 f = f\<lparr>requests := requests f @ [p]\<rparr>
             in (Inr (StoreFile file), f))
          else
            (let f = loadOnce_Do f
             in (case include_map f p of
                   Some ok \<Rightarrow>
                     (Inr (FilterFile \<lparr>File = file, name = p, file_include = include_map f\<rparr>), f)
                 | None \<Rightarrow> (Inl ErrNotExist, f))))"

text \<open>
  \<^verbatim>\<open>File.Readdir\<close>. The slice expression \<^verbatim>\<open>f.name[len(f.name)-1:]\<close> panics when the
  name is empty (the low bound is \<open>-1\<close>); otherwise it is the last byte. The answer of
  the store file to \<^verbatim>\<open>f.File.Readdir(count)\<close> is the parameter \<open>rd\<close>: the store is
  external, and a theorem about \<open>Readdir\<close> holds for each of its answers. The loop
  appends the entries whose full name is a key of the include map.
\<close>

fun Readdir_loop :: "'h File \<Rightarrow> FileInfo list \<Rightarrow> FileInfo list \<Rightarrow> FileInfo list" where
  "Readdir_loop f [] newInfo = newInfo"
| "Readdir_loop f (i # info) newInfo =
     Readdir_loop f info
       (case file_include f (name f @ ''/'' @ Name i) of
          Some ok \<Rightarrow> newInfo @ [i]
        | None \<Rightarrow> newInfo)"

definition Readdir ::
  "('h \<Rightarrow> int \<Rightarrow> FileInfo list \<times> error option) \<Rightarrow> 'h File \<Rightarrow> int
     \<Rightarrow> panic + ('h File \<times> FileInfo list \<times> error option)" where
  "Readdir rd f count =
     (if length (name f) = 0 then Inl SliceBoundsOutOfRange
      else
        (let f = (if drop (length (name f) - 1) (name f) = ''/''
                  then f\<lparr>name := take (length (name f) - 1) (name f)\<rparr> else f);
             (info, err) = rd (File f) count
         in Inr (f, Readdir_loop f info [], err)))"

subsection \<open>The access recorder\<close>

text \<open>
  \<^verbatim>\<open>processRequests\<close> starts a goroutine that owns three variables (\<^verbatim>\<open>changed\<close>,
  \<^verbatim>\<open>includeList\<close>, \<^verbatim>\<open>includeMap\<close>) and serves four channels in a \<^verbatim>\<open>select\<close> loop.
  The slices it hands out share memory with nothing only if the code copies them, so the
  backing arrays live in an explicit store: a slice is a pointer to a backing array with
  a length and a capacity, and the store maps each address to the array behind it.
\<close>

type_synonym addr = nat

record slice =
  ptr :: addr
  len :: nat
  cap :: nat

record heap =
  arrays :: "addr \<Rightarrow> string list"
  brk :: addr

text \<open>The elements seen through a slice.\<close>

definition elems :: "heap \<Rightarrow> slice \<Rightarrow> string list" where
  "elems h s = take (len s) (arrays h (ptr s))"

text \<open>\<^verbatim>\<open>make([]string, n, c)\<close>: a new array of \<open>c\<close> empty strings at an unused address.\<close>

definition make_slice :: "nat \<Rightarrow> nat \<Rightarrow> heap \<Rightarrow> slice \<times> heap" where
  "make_slice n c h =
     (\<lparr>ptr = brk h, len = n, cap = c\<rparr>,
      h\<lparr>arrays := (arrays h)(brk h := replicate c []), brk := Suc (brk h)\<rparr>)"

text \<open>
  \<^verbatim>\<open>append(s, r)\<close>: in place while the capacity lasts, into a new and larger array
  otherwise. Go leaves the new capacity to the runtime; the model doubles it.
\<close>

definition newcap :: "slice \<Rightarrow> nat" where
  "newcap s = max (2 * cap s) (Suc (len s))"

definition append_slice :: "slice \<Rightarrow> string \<Rightarrow> heap \<Rightarrow> slice \<times> heap" where
  "append_slice s r h =
     (if len s < cap s
      then (s\<lparr>len := Suc (len s)\<rparr>,
            h\<lparr>arrays := (arrays h)(ptr s := (arrays h (ptr s))[len s := r])\<rparr>)
      else (\<lparr>ptr = brk h, len = Suc (len s), cap = newcap s\<rparr>,
            h\<lparr>arrays := (arrays h)(brk h :=
                 elems h s @ [r] @ replicate (newcap s - Suc (len s)) []),
              brk := Suc (brk h)\<rparr>))"

text \<open>
  \<^verbatim>\<open>sort.StringSlice(s).Sort()\<close> sorts the elements of the slice where they are, in
  ascending order of \<open><\<close> on strings.
\<close>

definition sort_slice :: "slice \<Rightarrow> heap \<Rightarrow> heap" where
  "sort_slice s h =
     h\<lparr>arrays := (arrays h)(ptr s :=
          sort (take (len s) (arrays h (ptr s))) @ drop (len s) (arrays h (ptr s)))\<rparr>"

text \<open>\<^verbatim>\<open>copy(dst, src)\<close> overwrites the first \<open>min(len(dst), len(src))\<close> elements of \<open>dst\<close>.\<close>

definition copy_slice :: "slice \<Rightarrow> slice \<Rightarrow> heap \<Rightarrow> heap" where
  "copy_slice dst src h =
     (let n = min (len dst) (len src)
      in h\<lparr>arrays := (arrays h)(ptr dst :=
              take n (arrays h (ptr src)) @ drop n (arrays h (ptr dst)))\<rparr>)"

text \<open>
  The state of the goroutine. \<^verbatim>\<open>includeMap\<close> is a \<^verbatim>\<open>map[string]bool\<close>: a missing key
  reads as \<^verbatim>\<open>false\<close>.
\<close>

record recorder =
  changed :: bool
  includeList :: slice
  includeMap :: "string \<rightharpoonup> bool"
  mem :: heap

definition includeMap_get :: "(string \<rightharpoonup> bool) \<Rightarrow> string \<Rightarrow> bool" where
  "includeMap_get m r = (case m r of None \<Rightarrow> False | Some b \<Rightarrow> b)"

text \<open>
  The set-up of \<^verbatim>\<open>processRequests\<close>, before the goroutine starts. The parameter
  \<^verbatim>\<open>savedIncludeList\<close> is not used by the source.
\<close>

definition processRequests :: "string list \<Rightarrow> heap \<Rightarrow> recorder" where
  "processRequests savedIncludeList h =
     (let (l, h) = make_slice 0 100 h
      in \<lparr>changed = False, includeList = l, includeMap = Map.empty, mem = h\<rparr>)"

text \<open>The four cases of the \<^verbatim>\<open>select\<close>.\<close>

definition on_request :: "string \<Rightarrow> recorder \<Rightarrow> recorder" where
  "on_request r s =
     (if includeMap_get (includeMap s) r = False then
        (let (l, h) = append_slice (includeList s) r (mem s)
         in s\<lparr>includeMap := (includeMap s)(r \<mapsto> True), includeList := l, mem := h,
              changed := True\<rparr>)
      else s)"

definition on_query :: "recorder \<Rightarrow> slice \<times> recorder" where
  "on_query s =
     (let s = (if changed s
               then s\<lparr>mem := sort_slice (includeList s) (mem s), changed := False\<rparr>
               else s);
          (sortedList, h) = make_slice (len (includeList s)) (len (includeList s)) (mem s);
          h = copy_slice sortedList (includeList s) h
      in (sortedList, s\<lparr>mem := h\<rparr>))"

definition on_changed :: "recorder \<Rightarrow> bool \<times> recorder" where
  "on_changed s = (changed s, s)"

definition on_clear :: "recorder \<Rightarrow> recorder" where
  "on_clear s =
     (let (l, h) = make_slice 0 100 (mem s)
      in s\<lparr>includeList := l, mem := h, includeMap := Map.empty, changed := True\<rparr>)"

text \<open>
  A message is one communication accepted by the \<^verbatim>\<open>select\<close>: a name received from
  \<^verbatim>\<open>requests\<close>, a query on \<^verbatim>\<open>qchan\<close> (answered on \<^verbatim>\<open>achan\<close>), a send of
  \<^verbatim>\<open>changed\<close> on \<^verbatim>\<open>cchan\<close>, or a receive from \<^verbatim>\<open>clear\<close>. The loop handles them one
  at a time, so a run of the goroutine is the list of the messages it accepted.
\<close>

datatype msg = Request string | Query | ChangedRecv | Clear

datatype reply = ListReply slice | ChangedReply bool | NoReply

fun step :: "recorder \<Rightarrow> msg \<Rightarrow> recorder \<times> reply" where
  "step s (Request r) = (on_request r s, NoReply)"
| "step s Query = (let (l, s) = on_query s in (s, ListReply l))"
| "step s ChangedRecv = (let (b, s) = on_changed s in (s, ChangedReply b))"
| "step s Clear = (on_clear s, NoReply)"

fun run :: "recorder \<Rightarrow> msg list \<Rightarrow> recorder" where
  "run s [] = s"
| "run s (m # ms) = run (fst (step s m)) ms"

text \<open>
  The methods of \<^verbatim>\<open>sortedList\<close>, as their callers see them: each is one exchange with
  the goroutine.
\<close>

definition sortedList_List :: "recorder \<Rightarrow> slice \<times> recorder" where
  "sortedList_List s = on_query s"

definition sortedList_Changed :: "recorder \<Rightarrow> bool \<times> recorder" where
  "sortedList_Changed s = on_changed s"


text \<open>The paths recorded by a run since its last \<^verbatim>\<open>Clear\<close>.\<close>

fun recorded :: "string set \<Rightarrow> msg list \<Rightarrow> string set" where
  "recorded S [] = S"
| "recorded S (Request r # ms) = recorded (insert r S) ms"
| "recorded S (Clear # ms) = recorded {} ms"
| "recorded S (m # ms) = recorded S ms"

subsection \<open>Vocabulary of the properties\<close>

text \<open>
  The strict ancestor directories of a path in the words of the specification: every
  prefix formed by truncating the path at a separator, the empty prefix excluded.
\<close>

definition spec_ancestors :: "string \<Rightarrow> string list" where
  "spec_ancestors p = [take k p. k \<leftarrow> [0..<length p], p ! k = CHR ''/'', take k p \<noteq> []]"

text \<open>
  The prefixes formed by truncating a path at a separator that is not its first one:
  a separator with another separator before it.
\<close>

definition later_cuts :: "string \<Rightarrow> string list" where
  "later_cuts p =
     [take k p. k \<leftarrow> [0..<length p], p ! k = CHR ''/'', CHR ''/'' \<in> set (take k p)]"

text \<open>An absolute path begins with the separator.\<close>

fun absolute :: "string \<Rightarrow> bool" where
  "absolute [] = False"
| "absolute (c # cs) = (c = CHR ''/'')"

text \<open>A path with its trailing separator stripped, if it has one.\<close>

definition stripped :: "string \<Rightarrow> string" where
  "stripped n = (if n \<noteq> [] \<and> last n = CHR ''/'' then butlast n else n)"

text \<open>A path has a trailing separator when it is not empty and ends with one.\<close>

definition has_trailing_slash :: "string \<Rightarrow> bool" where
  "has_trailing_slash n \<longleftrightarrow> n \<noteq> [] \<and> last n = CHR ''/''"

text \<open>The entries of a listing whose full path under the directory \<open>d\<close> is included.\<close>

definition visible :: "(string \<rightharpoonup> unit) \<Rightarrow> string \<Rightarrow> FileInfo list \<Rightarrow> FileInfo list" where
  "visible inc d info = [i \<leftarrow> info. d @ ''/'' @ Name i \<in> dom inc]"

text \<open>
  Sets used in the proofs about \<open>loadIncludeList\<close>: the prefixes cut at a separator, at
  a separator after the first, and the strings joined by the inner loop from index \<open>i\<close>.
\<close>

definition cuts :: "string \<Rightarrow> string set" where
  "cuts s = {take k s | k. k < length s \<and> s ! k = CHR ''/''}"

definition cuts2 :: "string \<Rightarrow> string set" where
  "cuts2 s = {take k s | k. k < length s \<and> s ! k = CHR ''/'' \<and> CHR ''/'' \<in> set (take k s)}"

definition joined :: "string \<Rightarrow> nat \<Rightarrow> string set" where
  "joined s i =
     (\<lambda>j. Join (take j (Split s CHR ''/'')) ''/'') ` {i..<length (Split s CHR ''/'')}"

text \<open>
  The invariant of the recorder goroutine: its slice lies in allocated memory and within
  its capacity, holds each recorded path once, holds exactly the keys of the map, and is
  sorted unless \<open>changed\<close> is set. An address is foreign to the goroutine when it is
  allocated and is not the array behind \<open>includeList\<close>.
\<close>

definition recorder_inv :: "recorder \<Rightarrow> bool" where
  "recorder_inv s \<longleftrightarrow>
     ptr (includeList s) < brk (mem s) \<and>
     len (includeList s) \<le> cap (includeList s) \<and>
     length (arrays (mem s) (ptr (includeList s))) = cap (includeList s) \<and>
     distinct (elems (mem s) (includeList s)) \<and>
     set (elems (mem s) (includeList s)) = {r. includeMap_get (includeMap s) r} \<and>
     (changed s \<or> sorted (elems (mem s) (includeList s)))"

definition foreign :: "recorder \<Rightarrow> addr \<Rightarrow> bool" where
  "foreign s a \<longleftrightarrow> a < brk (mem s) \<and> a \<noteq> ptr (includeList s)"

subsection \<open>Example data\<close>

text \<open>
  A store with a root directory holding \<open>css\<close> and \<open>img\<close>, a readable and an unreadable
  image, and a directory that it also opens under a name with two trailing separators
  (\<^verbatim>\<open>http.Dir\<close> cleans the name before it opens the file). Handles are numbers.
\<close>

definition emptyOptions :: Options where
  "emptyOptions =
     \<lparr>Filename = [], PackageName = [], VfsgenBuildTags = [], VariableName = [],
      VariableComment = [], ListFileName = [], ListFileBuildTags = []\<rparr>"

definition example_dir :: "string \<Rightarrow> error + nat" where
  "example_dir p =
     (if p = ''/'' then Inr 0
      else if p = ''/css'' then Inr 1
      else if p = ''/img/logo.png'' then Inr 2
      else if p = ''/a//'' then Inr 3
      else if p = ''/img/locked.png'' then Inl ErrPermission
      else Inl ErrNotExist)"

definition css :: FileInfo where
  "css = \<lparr>Name = ''css'', IsDir = True\<rparr>"

definition img :: FileInfo where
  "img = \<lparr>Name = ''img'', IsDir = True\<rparr>"

text \<open>
  The answer of a store directory with the entries \<open>es\<close> still unread, by the contract
  of \<^verbatim>\<open>os.File.Readdir\<close>: all of them when \<open>count \<le> 0\<close>, at most \<open>count\<close> otherwise, and
  an end-of-file error when \<open>count > 0\<close> and none is left.
\<close>

definition store_Readdir :: "FileInfo list \<Rightarrow> nat \<Rightarrow> int \<Rightarrow> FileInfo list \<times> error option" where
  "store_Readdir es h count =
     (if count \<le> 0 then (es, None)
      else if es = [] then ([], Some (ErrOther ''EOF''))
      else (take (nat count) es, None))"

definition example_fd :: "nat FilterDir" where
  "example_fd = (New example_dir emptyOptions)\<lparr>FilterMode := True, IncludeList := [''/css/app.css'']\<rparr>"

definition example_root :: "nat File" where
  "example_root =
     \<lparr>File = 0, name = ''/'',
      file_include = [''/'' \<mapsto> (), ''/css/app.css'' \<mapsto> (), ''/css'' \<mapsto> ()]\<rparr>"

text \<open>
  The \<open>File\<close> that a filter-mode \<open>Open\<close> of \<open>/a//\<close> returns when the include list is
  that one path.
\<close>

definition example_slashes :: "nat File" where
  "example_slashes =
     \<lparr>File = 3, name = ''/a//'',
      file_include = [''/'' \<mapsto> (), ''/a//'' \<mapsto> (), ''/a'' \<mapsto> (), ''/a/'' \<mapsto> ()]\<rparr>"

definition empty_heap :: heap where
  "empty_heap = \<lparr>arrays = (\<lambda>a. []), brk = 0\<rparr>"

section \<open>Properties\<close>

declare loadIncludeList_dirs.simps [simp del]

subsection \<open>Facts about the example data\<close>

lemma example_fd_fields:
  "dir example_fd = example_dir" "FilterMode example_fd = True"
  "IncludeList example_fd = [''/css/app.css'']" "loadOnce example_fd = False"
  by (simp_all add: example_fd_def New_def)

lemma example_fd_include:
  "include_map (loadOnce_Do example_fd) =
     [''/'' \<mapsto> (), ''/css/app.css'' \<mapsto> (), ''/css'' \<mapsto> ()]"
  by (simp add: example_fd_def New_def loadOnce_Do_def loadIncludeList_def
      loadIncludeList_dirs.simps numeral_2_eq_2)

subsection \<open>Options\<close>

text \<open>
  Claim C8, as the code has it. \<open>fillMissing\<close> rejects nothing and gives a default to
  five options when they are empty: \<open>PackageName\<close> becomes \<open>main\<close>, \<open>VariableName\<close>
  becomes \<open>assets\<close>, \<open>ListFileName\<close> becomes \<open>assets_list.go\<close>, \<open>VfsgenBuildTags\<close>
  becomes \<open>!dev\<close> and \<open>ListFileBuildTags\<close> becomes \<open>dev\<close>; a value the caller supplies
  for one of them is kept. \<open>Filename\<close> and \<open>VariableComment\<close> get no default here: they
  stay as the caller left them, empty included, and reach the generator's options so.
\<close>

theorem fillMissing_defaults:
  "PackageName (fillMissing opt) = (if PackageName opt = [] then ''main'' else PackageName opt)
   \<and> VariableName (fillMissing opt)
       = (if VariableName opt = [] then ''assets'' else VariableName opt)
   \<and> ListFileName (fillMissing opt)
       = (if ListFileName opt = [] then ''assets_list.go'' else ListFileName opt)
   \<and> VfsgenBuildTags (fillMissing opt)
       = (if VfsgenBuildTags opt = [] then ''!dev'' else VfsgenBuildTags opt)
   \<and> ListFileBuildTags (fillMissing opt)
       = (if ListFileBuildTags opt = [] then ''dev'' else ListFileBuildTags opt)
   \<and> Filename (fillMissing opt) = Filename opt
   \<and> VariableComment (fillMissing opt) = VariableComment opt
   \<and> options (New d opt) = fillMissing opt
   \<and> vfsgen_Filename (FilterDir_Options (New d opt)) = Filename opt
   \<and> vfsgen_VariableComment (FilterDir_Options (New d opt)) = VariableComment opt
   \<and> vfsgen_PackageName (FilterDir_Options (New d opt)) = PackageName (fillMissing opt)
   \<and> vfsgen_VariableName (FilterDir_Options (New d opt)) = VariableName (fillMissing opt)
   \<and> vfsgen_BuildTags (FilterDir_Options (New d opt)) = VfsgenBuildTags (fillMissing opt)"
  by (simp add: fillMissing_def FilterDir_Options_def New_def Let_def)

text \<open>
  Claim C8 as it is written fails for \<open>Filename\<close> and \<open>VariableComment\<close>: with no option
  supplied, both are still empty after \<open>fillMissing\<close>, and \<open>Filename\<close> is not the name
  \<open>assets_vfsdata.go\<close> that the field's comment derives from the variable name.
\<close>

theorem fillMissing_Filename_counterexample:
  "Filename emptyOptions = [] \<and> VariableComment emptyOptions = []
   \<and> Filename (fillMissing emptyOptions) = []
   \<and> VariableComment (fillMissing emptyOptions) = []
   \<and> Filename (fillMissing emptyOptions) \<noteq> ''assets_vfsdata.go''
   \<and> vfsgen_Filename (FilterDir_Options (New example_dir emptyOptions)) = []"
  by (simp add: fillMissing_def emptyOptions_def FilterDir_Options_def New_def)

subsection \<open>Open\<close>

text \<open>
  Claim C6. In discovery mode (\<open>FilterMode\<close> false), when the store fails to open the
  path, \<open>Open\<close> returns the store's error as it is and changes nothing, so the path is not
  sent to the recorder; when the store opens the path, \<open>Open\<close> returns the store's file
  and sends the path on \<open>requests\<close>, the channel the recorder reads.
\<close>

theorem Open_discovery:
  "FilterMode f = False \<Longrightarrow>
     (\<forall>err. dir f p = Inl err \<longrightarrow> Open f p = (Inl err, f)) \<and>
     (\<forall>file. dir f p = Inr file \<longrightarrow>
        fst (Open f p) = Inr (StoreFile file) \<and>
        requests (snd (Open f p)) = requests f @ [p] \<and>
        snd (Open f p) = (startOnce_Do f)\<lparr>requests := requests f @ [p]\<rparr>)"
  by (auto simp: Open_def Let_def startOnce_Do_def)

theorem Open_discovery_witness:
  "FilterMode (New example_dir emptyOptions) = False
   \<and> dir (New example_dir emptyOptions) ''/missing'' = Inl ErrNotExist
   \<and> Open (New example_dir emptyOptions) ''/missing''
       = (Inl ErrNotExist, New example_dir emptyOptions)
   \<and> dir (New example_dir emptyOptions) ''/css'' = Inr 1
   \<and> fst (Open (New example_dir emptyOptions) ''/css'') = Inr (StoreFile 1)
   \<and> requests (snd (Open (New example_dir emptyOptions) ''/css'')) = [''/css'']"
proof -
  have m: "FilterMode (New example_dir emptyOptions) = False"
    by (simp add: New_def)
  have d: "dir (New example_dir emptyOptions) ''/missing'' = Inl ErrNotExist"
    "dir (New example_dir emptyOptions) ''/css'' = Inr 1"
    "requests (New example_dir emptyOptions) = []"
    by (simp_all add: New_def example_dir_def)
  show ?thesis
    using m d Open_discovery [OF m, of "''/missing''"] Open_discovery [OF m, of "''/css''"]
    by simp
qed

text \<open>
  Claim C1, as the code has it. In filter mode \<open>Open\<close> asks the store first. For a path
  outside the inclusion set it always fails: with the store's own error when the store
  fails to open the path, and with the not-found error \<open>ErrNotExist\<close> whenever the store
  does open it. The inclusion set is the include map after \<open>loadOnce\<close> has run.
\<close>

theorem Open_filter_veto:
  "FilterMode f \<Longrightarrow> p \<notin> dom (include_map (loadOnce_Do f)) \<Longrightarrow>
     fst (Open f p) = (case dir f p of Inl err \<Rightarrow> Inl err | Inr file \<Rightarrow> Inl ErrNotExist)"
  by (auto simp: Open_def Let_def domIff split: sum.splits option.splits)

theorem Open_filter_veto_witness:
  "FilterMode example_fd
   \<and> ''/img/logo.png'' \<notin> dom (include_map (loadOnce_Do example_fd))
   \<and> dir example_fd ''/img/logo.png'' = Inr 2
   \<and> fst (Open example_fd ''/img/logo.png'') = Inl ErrNotExist"
proof -
  have m: "FilterMode example_fd"
    by (simp add: example_fd_fields)
  have n: "''/img/logo.png'' \<notin> dom (include_map (loadOnce_Do example_fd))"
    by (simp add: example_fd_include)
  have d: "dir example_fd ''/img/logo.png'' = Inr 2"
    by (simp add: example_fd_fields example_dir_def)
  show ?thesis
    using m n d Open_filter_veto [OF m n] by simp
qed

text \<open>
  Claim C1 as it is written fails when the store has the path and cannot open it: the
  path \<open>/img/locked.png\<close> is outside the inclusion set, and \<open>Open\<close> fails with the
  store's permission error, not with not-found.
\<close>

theorem Open_filter_store_error_counterexample:
  "FilterMode example_fd
   \<and> ''/img/locked.png'' \<notin> dom (include_map (loadOnce_Do example_fd))
   \<and> fst (Open example_fd ''/img/locked.png'') = Inl ErrPermission
   \<and> fst (Open example_fd ''/img/locked.png'') \<noteq> Inl ErrNotExist"
  by (simp add: example_fd_include Open_def example_fd_fields example_dir_def)

subsection \<open>The inclusion set\<close>

lemma Split_not_Nil: "Split s c \<noteq> []"
  by (induction s) (auto split: list.splits)

lemma cuts_bounded: "cuts s = {x. \<exists>k<length s. x = take k s \<and> s ! k = CHR ''/''}"
  by (auto simp: cuts_def)

lemma cuts2_bounded:
  "cuts2 s = {x. \<exists>k<length s. x = take k s \<and> s ! k = CHR ''/'' \<and> CHR ''/'' \<in> set (take k s)}"
  by (auto simp: cuts2_def)

lemma cuts_Cons: "cuts (c # cs) = (if c = CHR ''/'' then {[]} else {}) \<union> ((#) c) ` cuts cs"
  by (auto simp: cuts_bounded Ex_less_Suc2)

lemma cuts2_separator: "cuts2 (CHR ''/'' # cs) = ((#) CHR ''/'') ` cuts cs"
  by (auto simp: cuts_bounded cuts2_bounded Ex_less_Suc2)

lemma cuts2_other: "c \<noteq> CHR ''/'' \<Longrightarrow> cuts2 (c # cs) = ((#) c) ` cuts2 cs"
  by (auto simp: cuts2_bounded Ex_less_Suc2)

lemma Join_Nil_Cons:
  "Join ([] # ys) ''/'' = (if ys = [] then [] else CHR ''/'' # Join ys ''/'')"
  by (cases ys) auto

lemma Join_Cons_Cons: "Join ((c # w) # ws) sep = c # Join (w # ws) sep"
  by (cases ws) auto

lemma image_shift: "f ` {Suc a..<Suc b} = (\<lambda>j. f (Suc j)) ` {a..<b}"
  by (simp only: image_Suc_atLeastLessThan[symmetric] image_image)

text \<open>How the joined prefixes of a string follow from those of its tail.\<close>

lemma joined_separator:
  "joined (CHR ''/'' # cs) (Suc (Suc i)) = ((#) CHR ''/'') ` joined cs (Suc i)"
proof -
  let ?X = "Split cs CHR ''/''"
  have "joined (CHR ''/'' # cs) (Suc (Suc i))
          = (\<lambda>j. Join (take j ([] # ?X)) ''/'') ` {Suc (Suc i)..<Suc (length ?X)}"
    by (simp add: joined_def)
  also have "\<dots> = (\<lambda>j. Join ([] # take j ?X) ''/'') ` {Suc i..<length ?X}"
    by (simp add: image_shift)
  also have "\<dots> = (\<lambda>j. CHR ''/'' # Join (take j ?X) ''/'') ` {Suc i..<length ?X}"
    by (rule image_cong) (auto simp: Join_Nil_Cons Split_not_Nil)
  finally show ?thesis
    by (auto simp: joined_def)
qed

lemma joined_separator_first:
  "joined (CHR ''/'' # cs) (Suc 0) = insert [] (((#) CHR ''/'') ` joined cs (Suc 0))"
proof -
  let ?X = "Split cs CHR ''/''"
  have "{Suc 0..<Suc (length ?X)} = insert (Suc 0) {Suc (Suc 0)..<Suc (length ?X)}"
    using Split_not_Nil[of cs "CHR ''/''"] by (cases ?X) auto
  then have "joined (CHR ''/'' # cs) (Suc 0) = insert [] (joined (CHR ''/'' # cs) (Suc (Suc 0)))"
    by (simp add: joined_def)
  then show ?thesis
    by (simp add: joined_separator)
qed

lemma joined_other:
  assumes "c \<noteq> CHR ''/''"
  shows "joined (c # cs) (Suc i) = ((#) c) ` joined cs (Suc i)"
proof -
  obtain w ws where X: "Split cs CHR ''/'' = w # ws"
    using Split_not_Nil[of cs "CHR ''/''"] by (cases "Split cs CHR ''/''") auto
  have "joined (c # cs) (Suc i)
          = (\<lambda>j. Join (take j ((c # w) # ws)) ''/'') ` {Suc i..<Suc (length ws)}"
    using assms by (simp add: joined_def X)
  also have "\<dots> = (\<lambda>j. c # Join (take j (w # ws)) ''/'') ` {Suc i..<Suc (length ws)}"
  proof (rule image_cong)
    fix j assume "j \<in> {Suc i..<Suc (length ws)}"
    then show "Join (take j ((c # w) # ws)) ''/'' = c # Join (take j (w # ws)) ''/''"
      by (cases j) (auto simp: Join_Cons_Cons)
  qed simp
  finally show ?thesis
    by (auto simp: joined_def X)
qed

lemma joined_from_1: "joined s (Suc 0) = cuts s"
proof (induction s)
  case Nil
  then show ?case by (simp add: joined_def cuts_def)
next
  case (Cons c cs)
  then show ?case
    by (cases "c = CHR ''/''") (simp_all add: joined_separator_first joined_other cuts_Cons)
qed

lemma joined_from_2: "joined s 2 = cuts2 s"
proof (induction s)
  case Nil
  then show ?case by (simp add: joined_def cuts2_def)
next
  case (Cons c cs)
  then show ?case
    by (cases "c = CHR ''/''")
      (simp_all add: numeral_2_eq_2 joined_separator joined_other cuts2_separator cuts2_other
        joined_from_1)
qed

lemma set_later_cuts: "set (later_cuts p) = cuts2 p"
  by (auto simp: later_cuts_def cuts2_def)

lemma set_spec_ancestors: "set (spec_ancestors p) = cuts p - {[]}"
  by (auto simp: spec_ancestors_def cuts_def)

lemma absolute_cuts: "absolute p \<Longrightarrow> cuts2 p = cuts p - {[]}"
  by (cases p) (auto simp: cuts_Cons cuts2_separator)

text \<open>The keys stored by the two loops.\<close>

lemma dom_loadIncludeList_dirs:
  "dom (loadIncludeList_dirs dirs i m)
     = dom m \<union> (\<lambda>j. Join (take j dirs) ''/'') ` {i..<length dirs}"
proof (induction dirs i m rule: loadIncludeList_dirs.induct)
  case (1 dirs i m)
  show ?case
  proof (cases "i < length dirs")
    case True
    let ?m = "m(Join (take i dirs) ''/'' \<mapsto> ())"
    have s: "{i..<length dirs} = insert i {Suc i..<length dirs}"
      using True by auto
    have "dom (loadIncludeList_dirs dirs i m) = dom (loadIncludeList_dirs dirs (Suc i) ?m)"
      using True by (subst loadIncludeList_dirs.simps) simp
    also have "\<dots> = dom ?m \<union> (\<lambda>j. Join (take j dirs) ''/'') ` {Suc i..<length dirs}"
      using True by (rule "1.IH")
    also have "\<dots> = dom m \<union> (\<lambda>j. Join (take j dirs) ''/'') ` {i..<length dirs}"
      unfolding s by simp
    finally show ?thesis .
  next
    case False
    then show ?thesis
      by (subst loadIncludeList_dirs.simps) simp
  qed
qed

lemma dom_loadIncludeList_files:
  "dom (loadIncludeList_files l m) = dom m \<union> set l \<union> (\<Union>p\<in>set l. joined p 2)"
  by (induction l arbitrary: m) (auto simp: dom_loadIncludeList_dirs joined_def)

lemma dom_loadIncludeList:
  "dom (include_map (loadIncludeList f))
     = {''/''} \<union> set (IncludeList f) \<union> (\<Union>p\<in>set (IncludeList f). cuts2 p)"
  by (simp add: loadIncludeList_def dom_loadIncludeList_files joined_from_2)

text \<open>
  Claim C2, as the code has it. For every include list, the inclusion set built by
  \<open>loadIncludeList\<close> holds the root path, every path of the list and every prefix of a
  listed path formed by truncating it at a separator other than its first one, and
  nothing else. For a list of absolute paths these prefixes are the strict ancestor
  directories of the specification (the prefixes truncated at a separator, the empty one
  excluded). For the list \<open>/css/app.css\<close>, \<open>/js/app.js\<close> the set is \<open>/\<close>, \<open>/css\<close>,
  \<open>/css/app.css\<close>, \<open>/js\<close>, \<open>/js/app.js\<close>.
\<close>

theorem loadIncludeList_inclusion_set:
  "dom (include_map (loadIncludeList f))
     = {''/''} \<union> set (IncludeList f) \<union> (\<Union>p\<in>set (IncludeList f). set (later_cuts p))
   \<and> ((\<forall>p\<in>set (IncludeList f). absolute p) \<longrightarrow>
        dom (include_map (loadIncludeList f))
          = {''/''} \<union> set (IncludeList f) \<union> (\<Union>p\<in>set (IncludeList f). set (spec_ancestors p)))
   \<and> dom (include_map (loadIncludeList (f\<lparr>IncludeList := [''/css/app.css'', ''/js/app.js'']\<rparr>)))
       = {''/'', ''/css'', ''/css/app.css'', ''/js'', ''/js/app.js''}"
proof (intro conjI impI)
  show "dom (include_map (loadIncludeList f))
     = {''/''} \<union> set (IncludeList f) \<union> (\<Union>p\<in>set (IncludeList f). set (later_cuts p))"
    by (simp add: dom_loadIncludeList set_later_cuts)
next
  assume "\<forall>p\<in>set (IncludeList f). absolute p"
  then have "(\<Union>p\<in>set (IncludeList f). cuts2 p)
               = (\<Union>p\<in>set (IncludeList f). set (spec_ancestors p))"
    by (simp add: absolute_cuts set_spec_ancestors)
  then show "dom (include_map (loadIncludeList f))
     = {''/''} \<union> set (IncludeList f) \<union> (\<Union>p\<in>set (IncludeList f). set (spec_ancestors p))"
    by (simp add: dom_loadIncludeList)
next
  show "dom (include_map (loadIncludeList (f\<lparr>IncludeList := [''/css/app.css'', ''/js/app.js'']\<rparr>)))
       = {''/'', ''/css'', ''/css/app.css'', ''/js'', ''/js/app.js''}"
    by (simp add: loadIncludeList_def loadIncludeList_dirs.simps numeral_2_eq_2 insert_commute)
qed

theorem loadIncludeList_inclusion_set_witness:
  "IncludeList example_fd = [''/css/app.css'']
   \<and> absolute ''/css/app.css''
   \<and> spec_ancestors ''/css/app.css'' = [''/css'']
   \<and> dom (include_map (loadIncludeList example_fd)) = {''/'', ''/css'', ''/css/app.css''}"
  using loadIncludeList_inclusion_set [of example_fd]
  by (auto simp: example_fd_fields spec_ancestors_def later_cuts_def upt_rec)

text \<open>
  Claim C2 as it is written fails for a path that does not begin with the separator:
  \<open>a\<close> is a prefix of \<open>a/b\<close> truncated at a separator and is not empty, and the
  inclusion set built from the list \<open>a/b\<close> is \<open>/\<close>, \<open>a/b\<close>, without \<open>a\<close>.
\<close>

theorem loadIncludeList_relative_counterexample:
  "''a'' \<in> set (spec_ancestors ''a/b'')
   \<and> ''a'' \<notin> dom (include_map (loadIncludeList (example_fd\<lparr>IncludeList := [''a/b'']\<rparr>)))
   \<and> dom (include_map (loadIncludeList (example_fd\<lparr>IncludeList := [''a/b'']\<rparr>)))
       = {''/'', ''a/b''}"
  by (simp add: loadIncludeList_def loadIncludeList_dirs.simps numeral_2_eq_2 insert_commute
      spec_ancestors_def upt_rec)

subsection \<open>The access recorder\<close>

text \<open>The invariant holds at the start and after every message.\<close>

lemma recorder_inv_processRequests: "recorder_inv (processRequests saved h)"
  by (simp add: recorder_inv_def processRequests_def make_slice_def elems_def
      includeMap_get_def)

lemma recorder_inv_on_clear: "recorder_inv (on_clear s)"
  by (simp add: recorder_inv_def on_clear_def make_slice_def elems_def includeMap_get_def)

lemma append_slice_elems:
  "len l \<le> cap l \<Longrightarrow> length (arrays h (ptr l)) = cap l \<Longrightarrow> append_slice l r h = (l', h') \<Longrightarrow>
     elems h' l' = elems h l @ [r] \<and> len l' \<le> cap l' \<and>
     length (arrays h' (ptr l')) = cap l' \<and> (ptr l < brk h \<longrightarrow> ptr l' < brk h')"
  by (auto simp: append_slice_def elems_def newcap_def take_Suc_conv_app_nth split: if_splits)

lemma recorder_inv_on_request:
  assumes inv: "recorder_inv s"
  shows "recorder_inv (on_request r s)"
proof (cases "includeMap_get (includeMap s) r")
  case True
  then show ?thesis
    using inv by (simp add: on_request_def)
next
  case False
  obtain l' h' where a: "append_slice (includeList s) r (mem s) = (l', h')"
    by force
  from inv have "len (includeList s) \<le> cap (includeList s)"
    "length (arrays (mem s) (ptr (includeList s))) = cap (includeList s)"
    by (simp_all add: recorder_inv_def)
  from append_slice_elems[OF this a] inv False a show ?thesis
    by (auto simp: recorder_inv_def on_request_def includeMap_get_def split: option.splits)
qed

text \<open>
  What a query returns: a slice at a new address whose elements are the recorded paths
  in ascending order. When \<open>changed\<close> is unset the list is sorted already and is copied
  as it is.
\<close>

lemma on_query_result:
  assumes "recorder_inv s" "on_query s = (l, s')"
  shows "elems (mem s') l = sort (elems (mem s) (includeList s))"
    and "elems (mem s') (includeList s') = sort (elems (mem s) (includeList s))"
    and "recorder_inv s'"
    and "ptr l < brk (mem s')"
    and "ptr l \<noteq> ptr (includeList s')"
  using assms
  by (auto simp: recorder_inv_def on_query_def make_slice_def copy_slice_def sort_slice_def
      elems_def Let_def sorted_sort_id includeMap_get_def split: if_splits)

lemma recorder_inv_step:
  assumes inv: "recorder_inv s"
  shows "recorder_inv (fst (step s m))"
proof (cases m)
  case (Request r)
  then show ?thesis
    using inv by (simp add: recorder_inv_on_request)
next
  case Query
  obtain l s' where q: "on_query s = (l, s')"
    by force
  from on_query_result(3)[OF inv q] show ?thesis
    using Query q by simp
next
  case ChangedRecv
  then show ?thesis
    using inv by (simp add: on_changed_def)
next
  case Clear
  then show ?thesis
    by (simp add: recorder_inv_on_clear)
qed

lemma recorder_inv_run: "recorder_inv s \<Longrightarrow> recorder_inv (run s msgs)"
  by (induction msgs arbitrary: s) (auto simp: recorder_inv_step)

text \<open>The goroutine writes to no array that is foreign to it, and none becomes its own.\<close>

lemma foreign_on_request:
  "recorder_inv s \<Longrightarrow> foreign s a \<Longrightarrow>
     arrays (mem (on_request r s)) a = arrays (mem s) a \<and> foreign (on_request r s) a"
  by (auto simp: foreign_def on_request_def append_slice_def recorder_inv_def Let_def
      split: if_splits)

lemma foreign_on_query:
  "recorder_inv s \<Longrightarrow> foreign s a \<Longrightarrow>
     arrays (mem (snd (on_query s))) a = arrays (mem s) a \<and> foreign (snd (on_query s)) a"
  by (auto simp: foreign_def on_query_def make_slice_def copy_slice_def sort_slice_def
      recorder_inv_def Let_def split: if_splits)

lemma foreign_on_clear:
  "recorder_inv s \<Longrightarrow> foreign s a \<Longrightarrow>
     arrays (mem (on_clear s)) a = arrays (mem s) a \<and> foreign (on_clear s) a"
  by (auto simp: foreign_def on_clear_def make_slice_def recorder_inv_def Let_def
      split: if_splits)

lemma foreign_step:
  "recorder_inv s \<Longrightarrow> foreign s a \<Longrightarrow>
     arrays (mem (fst (step s m))) a = arrays (mem s) a \<and> foreign (fst (step s m)) a"
  using foreign_on_request[of s a] foreign_on_query[of s a] foreign_on_clear[of s a]
  by (cases m) (auto simp: on_changed_def split: prod.splits)

lemma foreign_run:
  "recorder_inv s \<Longrightarrow> foreign s a \<Longrightarrow> arrays (mem (run s msgs)) a = arrays (mem s) a"
proof (induction msgs arbitrary: s)
  case Nil
  then show ?case by simp
next
  case (Cons m msgs)
  from foreign_step[OF Cons.prems, of m] recorder_inv_step[OF Cons.prems(1), of m]
  show ?case
    using Cons.IH[of "fst (step s m)"] by simp
qed

text \<open>The paths held after a run are the paths recorded by it.\<close>

lemma set_on_request:
  assumes inv: "recorder_inv s"
  shows "set (elems (mem (on_request r s)) (includeList (on_request r s)))
           = insert r (set (elems (mem s) (includeList s)))"
proof -
  obtain l' h' where a: "append_slice (includeList s) r (mem s) = (l', h')"
    by force
  from inv have "len (includeList s) \<le> cap (includeList s)"
    "length (arrays (mem s) (ptr (includeList s))) = cap (includeList s)"
    by (simp_all add: recorder_inv_def)
  from append_slice_elems[OF this a] inv a show ?thesis
    by (auto simp: on_request_def recorder_inv_def)
qed

lemma set_step:
  assumes inv: "recorder_inv s"
  shows "set (elems (mem (fst (step s m))) (includeList (fst (step s m))))
           = recorded (set (elems (mem s) (includeList s))) [m]"
proof (cases m)
  case (Request r)
  then show ?thesis
    using inv by (simp add: set_on_request)
next
  case Query
  obtain l s' where q: "on_query s = (l, s')"
    by force
  from on_query_result(2)[OF inv q] show ?thesis
    using Query q by simp
next
  case ChangedRecv
  then show ?thesis
    by (simp add: on_changed_def)
next
  case Clear
  then show ?thesis
    by (simp add: on_clear_def make_slice_def elems_def)
qed

lemma recorded_Cons: "recorded S (m # ms) = recorded (recorded S [m]) ms"
  by (cases m) auto

lemma set_run:
  "recorder_inv s \<Longrightarrow>
     set (elems (mem (run s msgs)) (includeList (run s msgs)))
       = recorded (set (elems (mem s) (includeList s))) msgs"
proof (induction msgs arbitrary: s)
  case Nil
  then show ?case by simp
next
  case (Cons m msgs)
  from Cons.IH[OF recorder_inv_step[OF Cons.prems, of m]] set_step[OF Cons.prems, of m]
  show ?case
    by (subst recorded_Cons) simp
qed

lemma recorded_requests: "recorded S (map Request rs) = S \<union> set rs"
  by (induction rs arbitrary: S) auto

lemma List_after_run:
  assumes "s = run (processRequests saved h) msgs" "sortedList_List s = (l, s')"
  shows "distinct (elems (mem s') l)"
    and "sorted (elems (mem s') l)"
    and "set (elems (mem s') l) = recorded {} msgs"
    and "elems (mem (run s' later)) l = elems (mem s') l"
proof -
  have inv: "recorder_inv s"
    using assms(1) by (simp add: recorder_inv_run recorder_inv_processRequests)
  have q: "on_query s = (l, s')"
    using assms(2) by (simp add: sortedList_List_def)
  note r = on_query_result[OF inv q]
  have d: "distinct (elems (mem s) (includeList s))"
    using inv by (simp add: recorder_inv_def)
  show "distinct (elems (mem s') l)"
    using r(1) d by simp
  show "sorted (elems (mem s') l)"
    using r(1) by simp
  have "set (elems (mem s) (includeList s))
          = recorded (set (elems (mem (processRequests saved h))
              (includeList (processRequests saved h)))) msgs"
    unfolding assms(1) by (rule set_run[OF recorder_inv_processRequests])
  also have "\<dots> = recorded {} msgs"
    by (simp add: processRequests_def make_slice_def elems_def)
  finally show "set (elems (mem s') l) = recorded {} msgs"
    using r(1) by simp
  have "foreign s' (ptr l)"
    using r(4,5) by (simp add: foreign_def)
  from foreign_run[OF r(3) this, of later]
  show "elems (mem (run s' later)) l = elems (mem s') l"
    by (simp add: elems_def)
qed

text \<open>
  Two runs of the model. Three recordings of two paths give the two paths in order. The
  array behind \<open>includeList\<close> is written in place by later recordings and sorts, so a
  reader holding the recorder's own slice would see \<open>/b\<close> turn into \<open>/a\<close>, while the
  slice that \<open>List\<close> returned keeps showing \<open>/b\<close>.
\<close>

lemma List_example:
  "(let (l, s) = sortedList_List (run (processRequests [] empty_heap)
                   [Request ''/a'', Request ''/a'', Request ''/b''])
    in elems (mem s) l = [''/a'', ''/b''])"
  by code_simp

lemma own_array_overwritten:
  "(let r = run (processRequests [] empty_heap) [Request ''/b''];
        own = includeList r;
        (l, s) = sortedList_List r;
        s' = run s [Request ''/a'', Query]
    in elems (mem s) own = [''/b''] \<and> elems (mem s') own = [''/a''] \<and>
       elems (mem s) l = [''/b''] \<and> elems (mem s') l = [''/b''])"
  by code_simp

text \<open>
  Claim C3. After any sequence of recorded paths \<open>rs\<close>, the list returned by \<open>List\<close>
  holds each distinct path of \<open>rs\<close> once, however often it was recorded, and is sorted
  in ascending order of strings; and it is a copy: whatever messages the recorder
  handles later, the elements seen through the returned slice stay the same. The same
  holds after any interleaving \<open>msgs\<close> of the four operations, for the paths recorded
  since the last \<open>Clear\<close>.
\<close>

theorem List_snapshot:
  "(let s = run (processRequests saved h) (map Request rs);
        (l, s') = sortedList_List s
    in distinct (elems (mem s') l) \<and> sorted (elems (mem s') l) \<and>
       set (elems (mem s') l) = set rs \<and>
       (\<forall>later. elems (mem (run s' later)) l = elems (mem s') l))
   \<and> (let s = run (processRequests saved h) msgs;
           (l, s') = sortedList_List s
       in distinct (elems (mem s') l) \<and> sorted (elems (mem s') l) \<and>
          set (elems (mem s') l) = recorded {} msgs \<and>
          (\<forall>later. elems (mem (run s' later)) l = elems (mem s') l))"
proof -
  have g: "distinct (elems (mem s') l) \<and> sorted (elems (mem s') l) \<and>
           set (elems (mem s') l) = recorded {} ms \<and>
           (\<forall>later. elems (mem (run s' later)) l = elems (mem s') l)"
    if "sortedList_List (run (processRequests saved h) ms) = (l, s')" for ms l s'
    using List_after_run[OF refl that] by blast
  show ?thesis
    using g[of "map Request rs"] g[of msgs]
    by (simp add: Let_def recorded_requests split: prod.splits)
qed

text \<open>
  Claim C4, as the code has it. \<open>Changed\<close> is a query: it returns the flag \<open>changed\<close>
  and leaves the recorder as it was, so that the next \<open>List\<close> sorts, copies and returns
  exactly as it would have without the query. The flag it reports is the same flag that
  gates the sort, and \<open>List\<close> clears it: after a \<open>List\<close>, \<open>Changed\<close> reports false.
\<close>

theorem Changed_reads_the_sort_flag:
  "sortedList_Changed s = (changed s, s)
   \<and> sortedList_List (snd (sortedList_Changed s)) = sortedList_List s
   \<and> changed (snd (sortedList_List s)) = False
   \<and> fst (sortedList_Changed (snd (sortedList_List s))) = False"
  by (simp add: sortedList_Changed_def on_changed_def sortedList_List_def on_query_def
      Let_def split: prod.splits)

text \<open>
  Claim C4 as it is written fails: after one recorded path \<open>Changed\<close> reports true, and
  once a \<open>List\<close> has been taken \<open>Changed\<close> reports false, with nothing else done.
\<close>

theorem Changed_after_List_counterexample:
  "fst (sortedList_Changed (run (processRequests [] empty_heap) [Request ''/a''])) = True
   \<and> fst (sortedList_Changed (snd (sortedList_List
           (run (processRequests [] empty_heap) [Request ''/a''])))) = False"
  by (simp add: sortedList_Changed_def on_changed_def sortedList_List_def on_query_def
      processRequests_def make_slice_def on_request_def append_slice_def includeMap_get_def
      empty_heap_def Let_def split: prod.splits)





subsection \<open>Readdir\<close>

lemma Readdir_loop_visible:
  "Readdir_loop f info acc = acc @ visible (file_include f) (name f) info"
  by (induction info arbitrary: acc) (auto simp: visible_def split: option.splits)

lemma last_byte_slice:
  "n \<noteq> [] \<Longrightarrow> (drop (length n - Suc 0) n = ''/'') = (last n = CHR ''/'')"
  by (cases n rule: rev_cases) auto

lemma Readdir_nonempty:
  "name f \<noteq> [] \<Longrightarrow>
     Readdir rd f count =
       Inr (f\<lparr>name := stripped (name f)\<rparr>,
            visible (file_include f) (stripped (name f)) (fst (rd (File f) count)),
            snd (rd (File f) count))"
  by (auto simp: Readdir_def Let_def last_byte_slice stripped_def butlast_conv_take
      Readdir_loop_visible split: prod.splits)

lemma Readdir_empty: "name f = [] \<Longrightarrow> Readdir rd f count = Inl SliceBoundsOutOfRange"
  by (simp add: Readdir_def)

lemma stripped_trailing: "has_trailing_slash (stripped n) \<longleftrightarrow> (\<exists>m. n = m @ ''//'')"
proof (cases n rule: rev_cases)
  case Nil
  then show ?thesis
    by (simp add: stripped_def has_trailing_slash_def)
next
  case (snoc ys y)
  show ?thesis
  proof (cases ys rule: rev_cases)
    case Nil
    then show ?thesis
      using \<open>n = ys @ [y]\<close> by (simp add: stripped_def has_trailing_slash_def)
  next
    case (snoc zs z)
    have "butlast (zs @ [z, y]) = zs @ [z]"
      by (simp add: butlast_append)
    then show ?thesis
      using snoc \<open>n = ys @ [y]\<close> by (auto simp: stripped_def has_trailing_slash_def)
  qed
qed

lemma Open_example_root:
  "Open example_fd ''/'' = (Inr (FilterFile example_root), loadOnce_Do example_fd)"
  by (simp add: Open_def example_fd_include example_root_def Let_def example_fd_fields
      example_dir_def)

text \<open>
  Claim C5. What \<open>Readdir\<close> does, for every \<open>File\<close>, every count and every answer of
  the store: when the stored name is not empty it returns the entries of the store's
  listing whose full path (the stored name with its trailing separator stripped, a
  separator, the entry's name) is in the include map, in the store's order, with the
  store's error as it is; when the stored name is empty it panics. With the inclusion
  set \<open>/\<close>, \<open>/css\<close>, \<open>/css/app.css\<close> and the root children \<open>css\<close> and \<open>img\<close>, \<open>Readdir\<close> on
  the root returns \<open>css\<close> alone. The root \<open>File\<close> is left with the empty name, so a
  caller that reads the root one entry at a time gets \<open>css\<close> from the first call and a
  panic from the second, where the claim has the listing filtered again.
\<close>

theorem Readdir_visible_entries:
  "Readdir rd f count =
     (if name f = [] then Inl SliceBoundsOutOfRange
      else Inr (f\<lparr>name := stripped (name f)\<rparr>,
                visible (file_include f) (stripped (name f)) (fst (rd (File f) count)),
                snd (rd (File f) count)))
   \<and> fst (Open example_fd ''/'') = Inr (FilterFile example_root)
   \<and> Readdir (store_Readdir [css, img]) example_root 0
       = Inr (example_root\<lparr>name := []\<rparr>, [css], None)
   \<and> Readdir (store_Readdir [css, img]) example_root 1
       = Inr (example_root\<lparr>name := []\<rparr>, [css], None)
   \<and> Readdir (store_Readdir [img]) (example_root\<lparr>name := []\<rparr>) 1
       = Inl SliceBoundsOutOfRange"
proof -
  have "name example_root \<noteq> []"
    by (simp add: example_root_def)
  from Readdir_nonempty[OF this] show ?thesis
    by (simp add: Readdir_nonempty Readdir_empty Open_example_root)
      (simp add: example_root_def stripped_def visible_def store_Readdir_def css_def img_def)
qed

text \<open>
  Claim C9. \<open>Readdir\<close> panics exactly when the stored name is empty. The root \<open>File\<close>
  comes from a filter-mode \<open>Open\<close> of the non-empty name \<open>/\<close>; its first \<open>Readdir\<close>
  strips the separator and stores the empty name, and its second \<open>Readdir\<close> reaches the
  slice expression with that name and panics.
\<close>

theorem Readdir_panics_iff_name_empty:
  "(Readdir rd f count = Inl SliceBoundsOutOfRange \<longleftrightarrow> name f = [])
   \<and> FilterMode example_fd
   \<and> fst (Open example_fd ''/'') = Inr (FilterFile example_root)
   \<and> name example_root = ''/''
   \<and> Readdir (store_Readdir [css, img]) example_root (- 1)
       = Inr (example_root\<lparr>name := []\<rparr>, [css], None)
   \<and> Readdir (store_Readdir []) (example_root\<lparr>name := []\<rparr>) (- 1)
       = Inl SliceBoundsOutOfRange"
proof -
  have i: "Readdir rd f count = Inl SliceBoundsOutOfRange \<longleftrightarrow> name f = []"
    by (cases "name f = []") (simp_all add: Readdir_empty Readdir_nonempty)
  have n: "name example_root \<noteq> []"
    by (simp add: example_root_def)
  show ?thesis
    using i by (simp add: Readdir_nonempty[OF n] Readdir_empty Open_example_root example_fd_fields)
      (simp add: example_root_def stripped_def visible_def store_Readdir_def css_def img_def)
qed

text \<open>
  Claim C10, as the code has it. On a \<open>File\<close> with a non-empty stored name, \<open>Readdir\<close>
  strips one trailing separator from the name, if there is one, and writes the result
  back; the embedded store file and the include map of the \<open>File\<close> are as before. The
  new name has a trailing separator exactly when the old name ended with two of them.
  When the old name had no trailing separator, \<open>Readdir\<close> leaves the \<open>File\<close> unchanged.
\<close>

theorem Readdir_strips_name:
  "name f \<noteq> [] \<Longrightarrow>
     (\<exists>info err. Readdir rd f count = Inr (f\<lparr>name := stripped (name f)\<rparr>, info, err))
     \<and> File (f\<lparr>name := stripped (name f)\<rparr>) = File f
     \<and> file_include (f\<lparr>name := stripped (name f)\<rparr>) = file_include f
     \<and> (has_trailing_slash (stripped (name f)) \<longleftrightarrow> (\<exists>m. name f = m @ ''//''))
     \<and> (\<not> has_trailing_slash (name f) \<longrightarrow>
          (\<exists>info err. Readdir rd f count = Inr (f, info, err)))"
proof -
  assume n: "name f \<noteq> []"
  have "\<not> has_trailing_slash (name f) \<Longrightarrow> f\<lparr>name := stripped (name f)\<rparr> = f"
    by (auto simp: stripped_def has_trailing_slash_def)
  then show ?thesis
    using Readdir_nonempty[OF n, of rd count] by (auto simp: stripped_trailing)
qed

theorem Readdir_strips_name_witness:
  "name (example_slashes\<lparr>name := ''/css/''\<rparr>) \<noteq> []
   \<and> (\<exists>info err. Readdir (store_Readdir []) (example_slashes\<lparr>name := ''/css/''\<rparr>) 0
         = Inr (example_slashes\<lparr>name := ''/css''\<rparr>, info, err))
   \<and> \<not> has_trailing_slash ''/css''
   \<and> (\<exists>info err. Readdir (store_Readdir []) (example_slashes\<lparr>name := ''/css''\<rparr>) 0
         = Inr (example_slashes\<lparr>name := ''/css''\<rparr>, info, err))"
proof -
  have a: "name (example_slashes\<lparr>name := ''/css/''\<rparr>) \<noteq> []"
    and b: "name (example_slashes\<lparr>name := ''/css''\<rparr>) \<noteq> []"
    by simp_all
  show ?thesis
    using a Readdir_strips_name [OF a, of "store_Readdir []" 0]
      Readdir_strips_name [OF b, of "store_Readdir []" 0]
    by (simp add: stripped_def has_trailing_slash_def)
qed

text \<open>
  Claim C10 as it is written fails for a name that ends with two separators: the \<open>File\<close>
  opened as \<open>/a//\<close> has the name \<open>/a/\<close> after one \<open>Readdir\<close>, with a trailing separator
  still, and the name \<open>/a\<close> after a second one, so the repeated call changed it.
\<close>

theorem Readdir_two_separators_counterexample:
  "fst (Open (example_fd\<lparr>IncludeList := [''/a//'']\<rparr>) ''/a//'') = Inr (FilterFile example_slashes)
   \<and> Readdir (store_Readdir []) example_slashes 0
       = Inr (example_slashes\<lparr>name := ''/a/''\<rparr>, [], None)
   \<and> has_trailing_slash ''/a/''
   \<and> Readdir (store_Readdir []) (example_slashes\<lparr>name := ''/a/''\<rparr>) 0
       = Inr (example_slashes\<lparr>name := ''/a''\<rparr>, [], None)
   \<and> ''/a'' \<noteq> ''/a/''"
  by (simp add: Open_def Let_def example_fd_def New_def example_dir_def loadOnce_Do_def
      loadIncludeList_def loadIncludeList_dirs.simps numeral_2_eq_2 numeral_3_eq_3
      example_slashes_def Readdir_def store_Readdir_def has_trailing_slash_def)

end
